theory Spec2Isabelle
  imports Main "HOL-Library.Word" "HOL-Library.Multiset" "HOL-Library.Sublist"
begin

section \<open>The migration engine of tinytoolkit/migrate\<close>

text \<open>
  The repository holds one engine in two variants (a pgx one and a database/sql one for
  SQLite) whose \<open>Sorted\<close>, \<open>MigrateUp\<close> and \<open>MigrateDown\<close> are the same code line by
  line; they differ in the handle through which a statement is sent (the connection that
  carries the open transaction, or the transaction itself). The model below follows
  \<open>src/migrate.go\<close>; the configurable name of the ledger table is left out, one ledger
  table is modelled.
\<close>

subsection \<open>Data\<close>

text \<open>Go's \<open>uint\<close> on a 64-bit platform; \<open>-\<close> wraps, \<open><\<close> is the unsigned order.\<close>

type_synonym version = "64 word"

text \<open>
  The errors a run can return: the four \<open>fmt.Errorf\<close> values of the source, the error
  of a migration's own operation, the error of a statement, the error of \<open>rows.Scan\<close>,
  and the runtime panic of an index out of range.
\<close>

datatype error =
    InvalidVersionOrDescription
  | InvalidUpOrDown
  | DoesntExist
  | NoMigrationsToRollback
  | OperationFailed string
  | StorageFailed
  | ScanFailed
  | IndexOutOfRange

text \<open>
  The database as one transaction sees it: the ledger table (absent until created; its
  rows \<open>(version, description)\<close> in insertion order) and the rest of the schema. The
  version column is a signed integer: a row holds the 64 bits of the \<open>uint\<close> that was
  inserted (database/sql passes a \<open>uint\<close> on as \<open>int64(v)\<close>), and the database reads
  and orders them as a signed value, \<open>sint\<close>.
\<close>

record 's dbstate =
  ledger_table :: "(version \<times> string) list option"
  schema :: 's

text \<open>
  An operation of a migration, \<open>func(tx) error\<close>: it works through the transaction
  handle, so on everything the transaction sees, and returns an error or the new state.
\<close>

type_synonym 's operation = "'s dbstate \<Rightarrow> string + 's dbstate"

record 's Migration =
  Version :: version
  Description :: string
  Up :: "'s operation option"
  Down :: "'s operation option"

text \<open>
  What a run does that no rollback undoes: the operations it called, the ledger
  statements it sent and the skips it logged, in order.
\<close>

datatype event =
    UpCalled version string
  | DownCalled version string
  | InsertExecuted version string
  | DeleteExecuted version
  | SkipLogged version

text \<open>
  The connection: the committed database, the working state of the open transaction (if
  one is open), the values the ledger columns accept for this driver and database
  (\<open>INT\<close> and \<open>VARCHAR(255)\<close> in PostgreSQL, \<open>INTEGER\<close> in SQLite), and the trace.
\<close>

record 's conn =
  committed :: "'s dbstate"
  pending :: "'s dbstate option"
  accepts :: "version \<Rightarrow> string \<Rightarrow> bool"
  trace :: "event list"

subsection \<open>Sorted\<close>

text \<open>
  \<open>sort.Slice\<close> with \<open>less = Version i < Version j\<close>. It is not a stable sort: the
  order of records of equal version is not specified by Go; the model keeps them in their
  original order.
\<close>

definition Sorted :: "'s Migration list \<Rightarrow> 's Migration list" where
  "Sorted ms = sort_key Version ms"

text \<open>
  The same function on a store of backing arrays, an address being an index of the store:
  \<open>make\<close> allocates a zeroed array, \<open>copy\<close> fills it, \<open>sort.Slice\<close> sorts it in place.
\<close>

type_synonym 's store = "'s Migration list list"

definition zero_Migration :: "'s Migration" where
  "zero_Migration = \<lparr>Version = 0, Description = [], Up = None, Down = None\<rparr>"

definition make_slice :: "nat \<Rightarrow> 's store \<Rightarrow> nat \<times> 's store" where
  "make_slice n h = (length h, h @ [replicate n zero_Migration])"

definition copy_slice :: "nat \<Rightarrow> nat \<Rightarrow> 's store \<Rightarrow> 's store" where
  "copy_slice dst src h =
     (let k = min (length (h ! dst)) (length (h ! src))
      in h[dst := take k (h ! src) @ drop k (h ! dst)])"

definition sort_slice :: "nat \<Rightarrow> 's store \<Rightarrow> 's store" where
  "sort_slice a h = h[a := sort_key Version (h ! a)]"

text \<open>\<open>None\<close> is the nil dereference of \<open>*ms\<close>.\<close>

definition Sorted_store :: "nat \<Rightarrow> 's store \<Rightarrow> (nat \<times> 's store) option" where
  "Sorted_store a h =
     (if a < length h
      then (let (b, h1) = make_slice (length (h ! a)) h;
                h2 = copy_slice b a h1;
                h3 = sort_slice b h2
            in Some (b, h3))
      else None)"

subsection \<open>Transactions and statements\<close>

definition BeginTx :: "'s conn \<Rightarrow> 's conn" where
  "BeginTx c = c\<lparr>pending := Some (committed c)\<rparr>"

definition Commit :: "'s conn \<Rightarrow> 's conn" where
  "Commit c = (case pending c of
                 Some w \<Rightarrow> c\<lparr>committed := w, pending := None\<rparr>
               | None \<Rightarrow> c)"

definition Rollback :: "'s conn \<Rightarrow> 's conn" where
  "Rollback c = c\<lparr>pending := None\<rparr>"

text \<open>
  A statement sent on the connection runs in the open transaction when there is one and
  is committed at once otherwise. A failed statement changes nothing. The database
  answers every statement: a failure of the connection itself (to begin, to commit, a
  lost connection) is not part of the model, the errors of a statement are those of the
  ledger table (absent, a \<open>UNIQUE\<close> column violated, a value not accepted), the error of
  reading a row that of a stored version that does not fit the \<open>uint\<close> it is scanned into.
\<close>

definition exec_stmt ::
  "('s dbstate \<Rightarrow> error + 's dbstate) \<Rightarrow> 's conn \<Rightarrow> error option \<times> 's conn" where
  "exec_stmt st c =
     (case pending c of
        Some w \<Rightarrow> (case st w of
                     Inl e \<Rightarrow> (Some e, c)
                   | Inr w' \<Rightarrow> (None, c\<lparr>pending := Some w'\<rparr>))
      | None \<Rightarrow> (case st (committed c) of
                   Inl e \<Rightarrow> (Some e, c)
                 | Inr d' \<Rightarrow> (None, c\<lparr>committed := d'\<rparr>)))"

text \<open>\<open>CREATE TABLE IF NOT EXISTS\<close>.\<close>

definition create_table :: "'s dbstate \<Rightarrow> error + 's dbstate" where
  "create_table d =
     (case ledger_table d of
        None \<Rightarrow> Inr (d\<lparr>ledger_table := Some []\<rparr>)
      | Some rows \<Rightarrow> Inr d)"

text \<open>
  The loop over \<open>rows.Next()\<close> with \<open>rows.Scan(&version)\<close> into a \<open>uint\<close>: a negative
  value of the column does not scan, and the first such row ends the loop with the error.
\<close>

fun scan_rows :: "version list \<Rightarrow> error + version list" where
  "scan_rows [] = Inr []"
| "scan_rows (v # vs) =
     (if sint v < 0 then Inl ScanFailed
      else case scan_rows vs of
             Inl e \<Rightarrow> Inl e
           | Inr index \<Rightarrow> Inr (v # index))"

text \<open>\<open>SELECT version ... ORDER BY version ASC\<close>, and the scan of its rows.\<close>

definition select_versions :: "'s dbstate \<Rightarrow> error + version list" where
  "select_versions d =
     (case ledger_table d of
        None \<Rightarrow> Inl StorageFailed
      | Some rows \<Rightarrow> scan_rows (sort_key sint (map fst rows)))"

text \<open>\<open>INSERT\<close> into a table whose two columns are \<open>UNIQUE NOT NULL\<close>.\<close>

definition insert_row ::
  "(version \<Rightarrow> string \<Rightarrow> bool) \<Rightarrow> version \<Rightarrow> string \<Rightarrow> 's dbstate \<Rightarrow> error + 's dbstate" where
  "insert_row acc v desc d =
     (case ledger_table d of
        None \<Rightarrow> Inl StorageFailed
      | Some rows \<Rightarrow>
          if acc v desc \<and> v \<notin> set (map fst rows) \<and> desc \<notin> set (map snd rows)
          then Inr (d\<lparr>ledger_table := Some (rows @ [(v, desc)])\<rparr>)
          else Inl StorageFailed)"

text \<open>\<open>DELETE ... WHERE version = v\<close>.\<close>

definition delete_row :: "version \<Rightarrow> 's dbstate \<Rightarrow> error + 's dbstate" where
  "delete_row v d =
     (case ledger_table d of
        None \<Rightarrow> Inl StorageFailed
      | Some rows \<Rightarrow> Inr (d\<lparr>ledger_table := Some (filter (\<lambda>r. fst r \<noteq> v) rows)\<rparr>))"

text \<open>A migration's operation as a statement: its error is returned as it is.\<close>

definition operation_stmt :: "'s operation \<Rightarrow> 's dbstate \<Rightarrow> error + 's dbstate" where
  "operation_stmt f d = (case f d of Inl msg \<Rightarrow> Inl (OperationFailed msg) | Inr d' \<Rightarrow> Inr d')"

definition log_event :: "event \<Rightarrow> 's conn \<Rightarrow> 's conn" where
  "log_event ev c = c\<lparr>trace := trace c @ [ev]\<rparr>"

definition MigrationTable :: "'s conn \<Rightarrow> error option \<times> 's conn" where
  "MigrationTable c = exec_stmt create_table c"

definition MigrationIndex :: "'s conn \<Rightarrow> error + version list" where
  "MigrationIndex c =
     (case pending c of
        Some w \<Rightarrow> select_versions w
      | None \<Rightarrow> select_versions (committed c))"

definition InsertMigration :: "version \<Rightarrow> string \<Rightarrow> 's conn \<Rightarrow> error option \<times> 's conn" where
  "InsertMigration v desc c =
     exec_stmt (insert_row (accepts c) v desc) (log_event (InsertExecuted v desc) c)"

definition DeleteMigration :: "version \<Rightarrow> 's conn \<Rightarrow> error option \<times> 's conn" where
  "DeleteMigration v c = exec_stmt (delete_row v) (log_event (DeleteExecuted v) c)"

subsection \<open>MigrateUp\<close>

text \<open>The body of the loop over \<open>Sorted()\<close>, for one record.\<close>

definition up_step :: "version list \<Rightarrow> 's Migration \<Rightarrow> 's conn \<Rightarrow> error option \<times> 's conn" where
  "up_step index m c =
     (if Version m = 0 \<or> Description m = [] then (Some InvalidVersionOrDescription, c)
      else if Up m = None \<or> Down m = None then (Some InvalidUpOrDown, c)
      else if Version m \<in> set index then (None, log_event (SkipLogged (Version m)) c)
      else (case exec_stmt (operation_stmt (the (Up m)))
                   (log_event (UpCalled (Version m) (Description m)) c) of
              (Some e, c') \<Rightarrow> (Some e, c')
            | (None, c') \<Rightarrow> InsertMigration (Version m) (Description m) c'))"

fun up_loop :: "version list \<Rightarrow> 's Migration list \<Rightarrow> 's conn \<Rightarrow> error option \<times> 's conn" where
  "up_loop index [] c = (None, c)"
| "up_loop index (m # ms) c =
     (case up_step index m c of
        (Some e, c') \<Rightarrow> (Some e, c')
      | (None, c') \<Rightarrow> up_loop index ms c')"

text \<open>
  The deferred \<open>tx.Rollback\<close> runs on every return; after a commit it does nothing.
\<close>

definition MigrateUp :: "'s Migration list \<Rightarrow> 's conn \<Rightarrow> error option \<times> 's conn" where
  "MigrateUp ms c =
     (let c0 = BeginTx c in
      case MigrationTable c0 of
        (Some e, c1) \<Rightarrow> (Some e, Rollback c1)
      | (None, c1) \<Rightarrow>
          (case MigrationIndex c1 of
             Inl e \<Rightarrow> (Some e, Rollback c1)
           | Inr index \<Rightarrow>
               (case up_loop index (Sorted ms) c1 of
                  (Some e, c2) \<Rightarrow> (Some e, Rollback c2)
                | (None, c2) \<Rightarrow> (None, Rollback (Commit c2)))))"

subsection \<open>MigrateDown\<close>

text \<open>
  The body of the loop for the applied version \<open>v = index[i]\<close>. The record is
  \<open>Sorted()[v - 1]\<close>, the subtraction being that of \<open>uint\<close>; an index outside the slice
  panics.
\<close>

definition down_step ::
  "'s Migration list \<Rightarrow> version list \<Rightarrow> version \<Rightarrow> 's conn \<Rightarrow> error option \<times> 's conn" where
  "down_step ms index v c =
     (let sorted = Sorted ms; p = unat (v - 1) in
      if p \<ge> length sorted then (Some IndexOutOfRange, c)
      else let m = sorted ! p in
        if Version m = 0 \<or> Description m = [] then (Some InvalidVersionOrDescription, c)
        else if Up m = None \<or> Down m = None then (Some InvalidUpOrDown, c)
        else if Version m \<notin> set index then (Some DoesntExist, c)
        else (case exec_stmt (operation_stmt (the (Down m)))
                     (log_event (DownCalled (Version m) (Description m)) c) of
                (Some e, c') \<Rightarrow> (Some e, c')
              | (None, c') \<Rightarrow> DeleteMigration (Version m) c'))"

text \<open>Go's \<open>int\<close> on a 64-bit platform: subtraction wraps in two's complement.\<close>

definition int_sub :: "int \<Rightarrow> int \<Rightarrow> int" where
  "int_sub a b = sint (word_of_int (a - b) :: 64 word)"

text \<open>
  \<open>for i := len(index) - 1; i >= bound; i--\<close>, where \<open>bound\<close> is
  \<open>len(index) - amount\<close>. Reading \<open>index[i]\<close> panics outside the slice.
\<close>

function down_loop ::
  "'s Migration list \<Rightarrow> version list \<Rightarrow> int \<Rightarrow> int \<Rightarrow> 's conn \<Rightarrow> error option \<times> 's conn" where
  "down_loop ms index bound i c =
     (if i < bound then (None, c)
      else if i < 0 \<or> int (length index) \<le> i then (Some IndexOutOfRange, c)
      else (case down_step ms index (index ! nat i) c of
              (Some e, c') \<Rightarrow> (Some e, c')
            | (None, c') \<Rightarrow> down_loop ms index bound (i - 1) c'))"
  by pat_completeness auto
termination
  by (relation "measure (\<lambda>(ms, index, bound, i, c). nat (i + 1))") auto

declare down_loop.simps [simp del]

text \<open>\<open>amount\<close> is a Go \<open>int\<close>, read as a signed 64-bit value.\<close>

definition MigrateDown ::
  "'s Migration list \<Rightarrow> 64 word \<Rightarrow> 's conn \<Rightarrow> error option \<times> 's conn" where
  "MigrateDown ms amount c =
     (let c0 = BeginTx c in
      case MigrationTable c0 of
        (Some e, c1) \<Rightarrow> (Some e, Rollback c1)
      | (None, c1) \<Rightarrow>
          (case MigrationIndex c1 of
             Inl e \<Rightarrow> (Some e, Rollback c1)
           | Inr index \<Rightarrow>
               if length index = 0 then (Some NoMigrationsToRollback, Rollback c1)
               else
                 (let n = int (length index);
                      amount' = (if sint amount > n then n else sint amount)
                  in case down_loop ms index (int_sub n amount') (n - 1) c1 of
                       (Some e, c2) \<Rightarrow> (Some e, Rollback c2)
                     | (None, c2) \<Rightarrow> (None, Rollback (Commit c2)))))"

subsection \<open>CurrentVersion\<close>

text \<open>
  \<open>SELECT version ... ORDER BY version DESC LIMIT 1\<close> on the connection, outside any
  transaction, and the scan of its one row: the value and the error returned. (The
  source does not close \<open>rows\<close>; what that costs the connection is outside the model.)
\<close>

definition CurrentVersion :: "'s conn \<Rightarrow> version \<times> error option" where
  "CurrentVersion c =
     (case ledger_table (committed c) of
        None \<Rightarrow> (0, Some StorageFailed)
      | Some rows \<Rightarrow>
          (case rev (sort_key sint (map fst rows)) of
             [] \<Rightarrow> (0, None)
           | v # vs \<Rightarrow> if sint v < 0 then (0, Some ScanFailed) else (v, None)))"

subsection \<open>Concrete instances\<close>

text \<open>
  A schema is the list of its table names here. The operations are those of the two
  READMEs: \<open>CREATE TABLE IF NOT EXISTS\<close> and \<open>DROP TABLE IF EXISTS\<close>, \<open>CREATE TABLE\<close>
  and \<open>DROP TABLE\<close> (which fail on a table that is there, or is not), and one that fails
  always.
\<close>

definition create_table_op :: "string \<Rightarrow> string list operation" where
  "create_table_op t d =
     (if t \<in> set (schema d) then Inl ''table exists''
      else Inr (d\<lparr>schema := t # schema d\<rparr>))"

definition drop_table_op :: "string \<Rightarrow> string list operation" where
  "drop_table_op t d =
     (if t \<in> set (schema d) then Inr (d\<lparr>schema := removeAll t (schema d)\<rparr>)
      else Inl ''no such table'')"

definition strict_migration :: "version \<Rightarrow> string \<Rightarrow> string \<Rightarrow> string list Migration" where
  "strict_migration v desc t =
     \<lparr>Version = v, Description = desc,
      Up = Some (create_table_op t), Down = Some (drop_table_op t)\<rparr>"

definition create_if_not_exists :: "string \<Rightarrow> string list operation" where
  "create_if_not_exists t d =
     Inr (d\<lparr>schema := (if t \<in> set (schema d) then schema d else t # schema d)\<rparr>)"

definition drop_if_exists :: "string \<Rightarrow> string list operation" where
  "drop_if_exists t d = Inr (d\<lparr>schema := removeAll t (schema d)\<rparr>)"


definition table_migration :: "version \<Rightarrow> string \<Rightarrow> string \<Rightarrow> string list Migration" where
  "table_migration v desc t =
     \<lparr>Version = v, Description = desc,
      Up = Some (create_if_not_exists t), Down = Some (drop_if_exists t)\<rparr>"

definition users_migration :: "string list Migration" where
  "users_migration = table_migration 1 ''create users'' ''users''"

definition posts_migration :: "string list Migration" where
  "posts_migration = table_migration 2 ''create posts'' ''posts''"

definition conn_of :: "(version \<times> string) list option \<Rightarrow> string list \<Rightarrow> string list conn" where
  "conn_of tbl sch =
     \<lparr>committed = \<lparr>ledger_table = tbl, schema = sch\<rparr>, pending = None,
      accepts = (\<lambda>v desc. True), trace = []\<rparr>"



subsection \<open>Notions used in the properties\<close>

text \<open>
  The applied index: the ledger's versions in the ascending order of the column, none
  while the ledger table does not exist (a run creates it, empty, before reading). A run
  reads it with \<open>scan_rows\<close>.
\<close>

definition applied_index :: "'s dbstate \<Rightarrow> version list" where
  "applied_index d =
     (case ledger_table d of None \<Rightarrow> [] | Some rows \<Rightarrow> sort_key sint (map fst rows))"

text \<open>The connection once a run has begun its transaction and ensured the ledger table.\<close>

definition tx_opened :: "'s conn \<Rightarrow> 's conn" where
  "tx_opened c = snd (MigrationTable (BeginTx c))"

text \<open>The events a run added to the trace.\<close>

definition new_events :: "'s conn \<Rightarrow> 's conn \<Rightarrow> event list" where
  "new_events c c' = drop (length (trace c)) (trace c')"



text \<open>The loop of MigrateDown over the applied versions it visits, in the order of the visits.\<close>

fun down_steps ::
  "'s Migration list \<Rightarrow> version list \<Rightarrow> version list \<Rightarrow> 's conn \<Rightarrow> error option \<times> 's conn" where
  "down_steps ms index [] c = (None, c)"
| "down_steps ms index (v # vs) c =
     (case down_step ms index v c of
        (Some e, c') \<Rightarrow> (Some e, c')
      | (None, c') \<Rightarrow> down_steps ms index vs c')"




text \<open>
  The applied version \<open>v\<close> sits at its own position: position \<open>v - 1\<close> of
  \<open>Sorted()\<close> holds a record of version \<open>v\<close> that passes the two checks of the loop.
\<close>

definition well_placed :: "'s Migration list \<Rightarrow> version \<Rightarrow> bool" where
  "well_placed ms v \<longleftrightarrow>
     v \<noteq> 0 \<and> unat (v - 1) < length ms \<and>
     (let m = Sorted ms ! unat (v - 1) in
        Version m = v \<and> Description m \<noteq> [] \<and> Up m \<noteq> None \<and> Down m \<noteq> None)"

text \<open>
  What reverting the applied versions \<open>vs\<close>, in this order, makes of a database: for
  each, the reverse operation of the record at its position, then the deletion of its
  ledger row. \<open>None\<close> when a reverse operation is missing, fails, or writes the ledger
  table itself.
\<close>

fun revert_versions :: "'s Migration list \<Rightarrow> version list \<Rightarrow> 's dbstate \<Rightarrow> 's dbstate option" where
  "revert_versions ms [] d = Some d"
| "revert_versions ms (v # vs) d =
     (case Down (Sorted ms ! unat (v - 1)) of
        None \<Rightarrow> None
      | Some f \<Rightarrow>
          (case f d of
             Inl msg \<Rightarrow> None
           | Inr d1 \<Rightarrow>
               if ledger_table d1 = ledger_table d
               then (case delete_row v d1 of
                       Inl e \<Rightarrow> None
                     | Inr d2 \<Rightarrow> revert_versions ms vs d2)
               else None))"

text \<open>The events of reverting the applied version \<open>v\<close>.\<close>

definition revert_events :: "'s Migration list \<Rightarrow> version \<Rightarrow> event list" where
  "revert_events ms v = [DownCalled v (Description (Sorted ms ! unat (v - 1))), DeleteExecuted v]"




section \<open>Properties\<close>

subsection \<open>Runs and their transaction\<close>

lemma MigrationTable_BeginTx:
  "MigrationTable (BeginTx c) = (None, tx_opened c)"
  by (simp add: tx_opened_def MigrationTable_def BeginTx_def exec_stmt_def create_table_def
      split: option.splits)

lemma tx_opened_simps:
  "committed (tx_opened c) = committed c"
  "accepts (tx_opened c) = accepts c"
  "trace (tx_opened c) = trace c"
  "pending (tx_opened c) \<noteq> None"
  by (simp_all add: tx_opened_def MigrationTable_def BeginTx_def exec_stmt_def create_table_def
      split: option.splits)

lemma scan_rows_Inr:
  "scan_rows vs = Inr index \<longleftrightarrow> index = vs \<and> (\<forall>v\<in>set vs. 0 \<le> sint v)"
  by (induction vs arbitrary: index) (auto split: sum.splits)

lemma scan_rows_Inl: "scan_rows vs = Inl e \<Longrightarrow> e = ScanFailed"
  by (induction vs) (auto split: sum.splits if_splits)

lemma MigrationIndex_tx_opened:
  "MigrationIndex (tx_opened c) = scan_rows (applied_index (committed c))"
  by (simp add: tx_opened_def MigrationTable_def BeginTx_def exec_stmt_def create_table_def
      MigrationIndex_def select_versions_def applied_index_def split: option.splits)

lemma select_versions_Inr:
  assumes "select_versions d = Inr index"
  shows "ledger_table d \<noteq> None" and "index = applied_index d"
    and "scan_rows (applied_index d) = Inr index" and "\<forall>v\<in>set index. 0 \<le> sint v"
  using assms
  by (auto simp: select_versions_def applied_index_def scan_rows_Inr split: option.splits)


lemma MigrateDown_unfold:
  "MigrateDown ms amount c =
     (case scan_rows (applied_index (committed c)) of
        Inl e \<Rightarrow> (Some e, Rollback (tx_opened c))
      | Inr index \<Rightarrow>
          (let n = int (length index) in
           if index = [] then (Some NoMigrationsToRollback, Rollback (tx_opened c))
           else case down_loop ms index (int_sub n (if sint amount > n then n else sint amount))
                       (n - 1) (tx_opened c) of
                  (Some e, c2) \<Rightarrow> (Some e, Rollback c2)
                | (None, c2) \<Rightarrow> (None, Rollback (Commit c2))))"
  by (simp add: MigrateDown_def MigrationTable_BeginTx MigrationIndex_tx_opened Let_def
      split: sum.splits)


lemma Rollback_simps:
  "committed (Rollback c) = committed c" "pending (Rollback c) = None"
  "accepts (Rollback c) = accepts c" "trace (Rollback c) = trace c"
  by (simp_all add: Rollback_def)





subsection \<open>MigrateUp: failure\<close>



subsection \<open>CurrentVersion\<close>

lemma last_sorted_Max:
  fixes xs :: "'a::linorder list"
  shows "sorted xs \<Longrightarrow> xs \<noteq> [] \<Longrightarrow> last xs = Max (set xs)"
proof (induction xs)
  case Nil
  then show ?case by simp
next
  case (Cons x xs)
  show ?case
  proof (cases "xs = []")
    case True
    then show ?thesis by simp
  next
    case False
    with Cons have "last xs = Max (set xs)" by simp
    moreover have "x \<le> last xs" using Cons.prems(1) False by simp
    ultimately show ?thesis using False by (simp add: max_def)
  qed
qed

lemma sint_nonneg:
  fixes w :: version
  assumes "0 \<le> sint w"
  shows "sint w = uint w"
proof -
  have "take_bit 64 (sint w) = take_bit 64 (uint w)"
    by (simp add: sint_uint take_bit_signed_take_bit)
  moreover have "take_bit 64 (uint w) = uint w"
    using uint_lt2p [of w] by (simp add: take_bit_int_eq_self)
  moreover have "take_bit 64 (sint w) = sint w"
    using assms sint_lt [of w] by (simp add: take_bit_int_eq_self)
  ultimately show ?thesis by simp
qed

lemma sint_le_iff:
  fixes a b :: version
  assumes "0 \<le> sint a" and "0 \<le> sint b"
  shows "sint a \<le> sint b \<longleftrightarrow> a \<le> b"
  using assms by (simp add: sint_nonneg word_le_def)

lemma sorted_scanned:
  fixes vs :: "version list"
  assumes "\<forall>v\<in>set vs. 0 \<le> sint v" and "sorted (map sint vs)"
  shows "sorted vs"
  using assms by (induction vs) (auto simp: sint_le_iff)

lemma sorted_applied_index:
  assumes "select_versions d = Inr index"
  shows "sorted index"
proof -
  have "sorted (map sint (applied_index d))"
    by (simp add: applied_index_def split: option.splits)
  then show ?thesis
    using select_versions_Inr(2,4) [OF assms] by (auto intro: sorted_scanned)
qed

text \<open>
  C8, as amended. When the applied index can be read (the ledger table exists and no
  stored version has its highest bit set), CurrentVersion returns, without an error, the
  highest version of the applied index, and zero when the ledger is empty. When the
  ledger table does not exist yet, it returns zero together with the error of the query.
\<close>

theorem CurrentVersion_highest:
  "(ledger_table (committed c) = None \<longrightarrow> CurrentVersion c = (0, Some StorageFailed))
   \<and> (\<forall>index. select_versions (committed c) = Inr index \<longrightarrow>
          CurrentVersion c = (if index = [] then 0 else Max (set index), None))"
proof -
  have two: "CurrentVersion c = (if index = [] then 0 else Max (set index), None)"
    if sv: "select_versions (committed c) = Inr index" for index
  proof -
    from select_versions_Inr [OF sv] obtain rows where
      rows: "ledger_table (committed c) = Some rows"
      and index: "index = sort_key sint (map fst rows)"
      and pos: "\<forall>v\<in>set index. 0 \<le> sint v"
      by (auto simp: applied_index_def)
    have cv: "CurrentVersion c =
                (case rev index of [] \<Rightarrow> (0, None)
                 | v # vs \<Rightarrow> if sint v < 0 then (0, Some ScanFailed) else (v, None))"
      using rows index by (simp add: CurrentVersion_def)
    show ?thesis
    proof (cases "index = []")
      case True
      then show ?thesis unfolding cv by simp
    next
      case False
      then have r: "rev index = last index # rev (butlast index)"
        by (metis append_butlast_last_id rev_eq_Cons_iff rev_rev_ident)
      have l: "last index = Max (set index)"
        using False sorted_applied_index [OF sv] by (simp add: last_sorted_Max)
      have "\<not> sint (last index) < 0" using pos False by (simp add: not_less)
      then show ?thesis unfolding cv r using False l by simp
    qed
  qed
  show ?thesis using two by (simp add: CurrentVersion_def)
qed

theorem CurrentVersion_highest_witness:
  "select_versions (committed (conn_of (Some [(2, ''create posts''), (1, ''create users'')]) []))
     = Inr [1, 2]
   \<and> CurrentVersion (conn_of (Some [(2, ''create posts''), (1, ''create users'')]) []) = (2, None)
   \<and> ledger_table (committed (conn_of None [])) = None
   \<and> CurrentVersion (conn_of None []) = (0, Some StorageFailed)"
proof -
  have h: "select_versions
             (committed (conn_of (Some [(2, ''create posts''), (1, ''create users'')]) []))
           = Inr [1, 2]"
    by (simp add: select_versions_def conn_of_def)
  have n: "ledger_table (committed (conn_of None [])) = None" by (simp add: conn_of_def)
  have m: "Max (set [1, 2 :: version]) = 2" by (simp add: word_le_nat_alt)
  show ?thesis
    using h n m
      CurrentVersion_highest [of "conn_of (Some [(2, ''create posts''), (1, ''create users'')]) []"]
      CurrentVersion_highest [of "conn_of None []"]
    by simp
qed

text \<open>
  A version with its highest bit set is stored as a negative value of the column. After
  the successful MigrateUp of the single version \<open>2^63\<close> on a new database, the ledger
  holds that version, and CurrentVersion returns zero with the error of the scan.
\<close>

theorem CurrentVersion_high_bit_counterexample:
  "fst (MigrateUp [table_migration 0x8000000000000000 ''create users'' ''users''] (conn_of None []))
     = None
   \<and> ledger_table (committed (snd (MigrateUp
         [table_migration 0x8000000000000000 ''create users'' ''users''] (conn_of None []))))
       = Some [(0x8000000000000000, ''create users'')]
   \<and> CurrentVersion (snd (MigrateUp
         [table_migration 0x8000000000000000 ''create users'' ''users''] (conn_of None [])))
       = (0, Some ScanFailed)"
  by (simp add: MigrateUp_def BeginTx_def MigrationTable_def MigrationIndex_def exec_stmt_def
        create_table_def select_versions_def Sorted_def up_step_def InsertMigration_def
        insert_row_def operation_stmt_def log_event_def Rollback_def Commit_def
        table_migration_def conn_of_def create_if_not_exists_def CurrentVersion_def)

subsection \<open>MigrateDown: the loop\<close>

lemma int_sub_exact:
  "- (2 ^ 63) \<le> a - b \<Longrightarrow> a - b < 2 ^ 63 \<Longrightarrow> int_sub a b = a - b"
  unfolding int_sub_def sint_sbintrunc' by (rule signed_take_bit_int_eq_self) simp_all

lemma Commit_tx_opened:
  "ledger_table (committed c) \<noteq> None \<Longrightarrow>
     Rollback (Commit (tx_opened c)) = Rollback c"
  by (auto simp: tx_opened_def MigrationTable_def BeginTx_def exec_stmt_def create_table_def
      Commit_def Rollback_def split: option.splits)

lemma Rollback_tx_opened: "Rollback (tx_opened c) = Rollback c"
  by (auto simp: tx_opened_def MigrationTable_def BeginTx_def exec_stmt_def create_table_def
      Rollback_def split: option.splits)

lemma applied_index_table: "applied_index d \<noteq> [] \<Longrightarrow> ledger_table d \<noteq> None"
  by (auto simp: applied_index_def split: option.splits)

lemma length_Sorted [simp]: "length (Sorted ms) = length ms"
  by (simp add: Sorted_def)

lemma down_loop_steps:
  "- 1 \<le> i \<Longrightarrow> i < int (length index) \<Longrightarrow>
   down_loop ms index bound i c =
     (case down_steps ms index (rev (drop (nat bound) (take (nat (i + 1)) index))) c of
        (Some e, c') \<Rightarrow> (Some e, c')
      | (None, c') \<Rightarrow> if bound \<le> - 1 then (Some IndexOutOfRange, c') else (None, c'))"
proof (induction ms index bound i c rule: down_loop.induct)
  case (1 ms index bound i c)
  show ?case
  proof (cases "i < bound")
    case True
    then have "nat (i + 1) \<le> nat bound" by simp
    then show ?thesis using True "1.prems" by (subst down_loop.simps) simp
  next
    case nb: False
    show ?thesis
    proof (cases "i < 0")
      case True
      then have "i = - 1" using "1.prems" by simp
      then show ?thesis using nb by (subst down_loop.simps) simp
    next
      case False
      then have i: "0 \<le> i" "nat i < length index" "nat (i + 1) = Suc (nat i)"
        using "1.prems" by auto
      have b: "nat bound \<le> nat i" using nb by simp
      have t: "take (Suc (nat i)) index = take (nat i) index @ [index ! nat i]"
        using i(2) by (simp add: take_Suc_conv_app_nth)
      have v: "rev (drop (nat bound) (take (nat (i + 1)) index))
                 = index ! nat i # rev (drop (nat bound) (take (nat i) index))"
        using b i by (simp add: t)
      obtain r1 c1 where s: "down_step ms index (index ! nat i) c = (r1, c1)"
        by (cases "down_step ms index (index ! nat i) c")
      show ?thesis
      proof (cases r1)
        case (Some e)
        then show ?thesis using nb False "1.prems" s
          by (subst down_loop.simps) (simp add: v)
      next
        case None
        have "down_loop ms index bound (i - 1) c1 =
               (case down_steps ms index (rev (drop (nat bound) (take (nat (i - 1 + 1)) index))) c1 of
                  (Some e, c') \<Rightarrow> (Some e, c')
                | (None, c') \<Rightarrow> if bound \<le> - 1 then (Some IndexOutOfRange, c') else (None, c'))"
          using "1.IH" nb False "1.prems" s None by simp
        then show ?thesis using nb False "1.prems" s None
          by (subst down_loop.simps) (simp add: v)
      qed
    qed
  qed
qed

lemma down_step_out_of_range:
  "length ms \<le> unat (v - 1) \<Longrightarrow> down_step ms index v c = (Some IndexOutOfRange, c)"
  by (simp add: down_step_def)



lemma unat_minus_1_64: "unat (0 - 1 :: 64 word) = 2 ^ 64 - 1"
  by (simp add: unsigned_minus_1_eq_mask mask_eq_exp_minus_1)

lemma out_of_range_version:
  fixes v :: version
  assumes "v = 0 \<and> length ms < 2 ^ 64 \<or> length ms < unat v"
  shows "length ms \<le> unat (v - 1)"
proof (cases "v = 0")
  case True
  then show ?thesis using assms unat_minus_1_64 by auto
next
  case False
  then show ?thesis using assms by (simp add: unat_minus_one)
qed

lemma trace_Commit [simp]: "trace (Commit c) = trace c"
  by (simp add: Commit_def split: option.splits)

lemma MigrateDown_run:
  assumes "scan_rows (applied_index (committed c)) = Inr index" and "index \<noteq> []"
    and "a = (if sint amount > int (length index) then int (length index) else sint amount)"
  shows "MigrateDown ms amount c =
           (case down_loop ms index (int_sub (int (length index)) a) (int (length index) - 1)
                   (tx_opened c) of
              (Some e, c2) \<Rightarrow> (Some e, Rollback c2)
            | (None, c2) \<Rightarrow> (None, Rollback (Commit c2)))"
  using assms by (simp add: MigrateDown_unfold Let_def)

subsection \<open>MigrateDown: empty index\<close>

text \<open>
  C6. Called when the applied index is empty (the ledger table is empty or does not exist
  yet), MigrateDown fails with the error "no migrations to rollback"; nothing is
  committed, no transaction stays open, and the trace is unchanged: no reverse operation
  was called and no ledger entry deleted.
\<close>

theorem MigrateDown_empty_index:
  assumes "applied_index (committed c) = []"
  shows "\<exists>c'. MigrateDown ms amount c = (Some NoMigrationsToRollback, c')
           \<and> committed c' = committed c \<and> pending c' = None \<and> trace c' = trace c"
  using assms by (simp add: MigrateDown_unfold Rollback_tx_opened Rollback_simps)

theorem MigrateDown_empty_index_witness:
  "applied_index (committed (conn_of (Some []) [''users''])) = []
   \<and> fst (MigrateDown [users_migration] 1 (conn_of (Some []) [''users'']))
       = Some NoMigrationsToRollback
   \<and> committed (snd (MigrateDown [users_migration] 1 (conn_of (Some []) [''users''])))
       = \<lparr>ledger_table = Some [], schema = [''users'']\<rparr>
   \<and> trace (snd (MigrateDown [users_migration] 1 (conn_of (Some []) [''users'']))) = []"
proof -
  let ?c = "conn_of (Some []) [''users'']"
  have h: "applied_index (committed ?c) = []"
    by (simp add: applied_index_def conn_of_def)
  from MigrateDown_empty_index [OF h, of "[users_migration]" 1]
  have "fst (MigrateDown [users_migration] 1 ?c) = Some NoMigrationsToRollback
        \<and> committed (snd (MigrateDown [users_migration] 1 ?c)) = committed ?c
        \<and> trace (snd (MigrateDown [users_migration] 1 ?c)) = trace ?c"
    by auto
  then show ?thesis using h by (simp add: conn_of_def)
qed

subsection \<open>MigrateDown: amounts that are not positive\<close>

text \<open>
  For a non-empty applied index of length \<open>n\<close> and an amount with
  \<open>n - 2^63 < amount \<le> 0\<close>, the subtraction \<open>len(index) - amount\<close> does not overflow:
  the loop does not run, MigrateDown succeeds, calls no reverse operation and deletes no
  ledger entry.
\<close>

lemma MigrateDown_nonpositive_amount:
  assumes "select_versions (committed c) = Inr index" and "index \<noteq> []"
    and "sint amount \<le> 0"
    and "int (length index) - 2 ^ 63 < sint amount"
  shows "\<exists>c'. MigrateDown ms amount c = (None, c')
           \<and> committed c' = committed c \<and> pending c' = None \<and> trace c' = trace c"
proof -
  define n where "n = int (length index)"
  define a where "a = (if sint amount > n then n else sint amount)"
  have a: "a = sint amount" using assms(3) by (simp add: a_def n_def)
  have b: "int_sub n a = n - a"
    using assms(3,4) unfolding a by (intro int_sub_exact) (simp_all add: n_def)
  have l: "down_loop ms index (n - a) (n - 1) (tx_opened c) = (None, tx_opened c)"
    using assms(3) unfolding a by (subst down_loop.simps) simp
  have "MigrateDown ms amount c = (None, Rollback c)"
    using MigrateDown_run [OF select_versions_Inr(3) [OF assms(1)] assms(2) a_def [unfolded n_def], of ms]
      b l select_versions_Inr(1) [OF assms(1)]
    by (simp add: n_def Commit_tx_opened)
  then show ?thesis by (simp add: Rollback_simps)
qed

lemma MigrateDown_nonpositive_amount_example:
  "select_versions (committed (conn_of (Some [(1, ''create users'')]) [''users''])) = Inr [1]
   \<and> sint (- 3 :: 64 word) \<le> 0
   \<and> fst (MigrateDown [users_migration] (- 3) (conn_of (Some [(1, ''create users'')]) [''users''])) = None
   \<and> committed (snd (MigrateDown [users_migration] (- 3) (conn_of (Some [(1, ''create users'')]) [''users''])))
       = \<lparr>ledger_table = Some [(1, ''create users'')], schema = [''users'']\<rparr>"
proof -
  let ?c = "conn_of (Some [(1, ''create users'')]) [''users'']"
  have h1: "select_versions (committed ?c) = Inr [1]"
    by (simp add: select_versions_def conn_of_def)
  have h2: "[1 :: version] \<noteq> []" by simp
  have h3: "sint (- 3 :: 64 word) \<le> 0" by simp
  have h4: "int (length [1 :: version]) - 2 ^ 63 < sint (- 3 :: 64 word)" by simp
  from MigrateDown_nonpositive_amount [OF h1 h2 h3 h4, of "[users_migration]"]
  have "fst (MigrateDown [users_migration] (- 3) ?c) = None
        \<and> committed (snd (MigrateDown [users_migration] (- 3) ?c)) = committed ?c"
    by auto
  then show ?thesis using h1 h3 by (simp add: conn_of_def)
qed

text \<open>
  C10. The amount \<open>-2^63\<close>, the least \<open>int\<close>, is not positive and the applied index is
  not empty, yet MigrateDown does not return success without a reverse operation: the
  bound \<open>len(index) - amount\<close> of the loop wraps around to a negative value, so the loop
  calls the reverse operation of the applied migration, deletes its ledger entry, and then
  panics reading \<open>index[-1]\<close>; the transaction is rolled back.
\<close>

theorem MigrateDown_minimal_amount_panics:
  "applied_index (committed (conn_of (Some [(1, ''create users'')]) [''users''])) = [1]
   \<and> sint (0x8000000000000000 :: 64 word) = - (2 ^ 63)
   \<and> fst (MigrateDown [users_migration] 0x8000000000000000
        (conn_of (Some [(1, ''create users'')]) [''users''])) = Some IndexOutOfRange
   \<and> new_events (conn_of (Some [(1, ''create users'')]) [''users''])
        (snd (MigrateDown [users_migration] 0x8000000000000000
          (conn_of (Some [(1, ''create users'')]) [''users''])))
       = [DownCalled 1 ''create users'', DeleteExecuted 1]
   \<and> committed (snd (MigrateDown [users_migration] 0x8000000000000000
          (conn_of (Some [(1, ''create users'')]) [''users''])))
       = \<lparr>ledger_table = Some [(1, ''create users'')], schema = [''users'']\<rparr>"
  by (simp add: MigrateDown_def BeginTx_def MigrationTable_def MigrationIndex_def exec_stmt_def
        create_table_def select_versions_def Sorted_def down_step_def DeleteMigration_def
        delete_row_def operation_stmt_def log_event_def Rollback_def Commit_def int_sub_def
        users_migration_def table_migration_def conn_of_def applied_index_def new_events_def
        drop_if_exists_def down_loop.simps)

subsection \<open>MigrateDown: the lookup outside the sorted list\<close>

text \<open>
  C9. When the last version of the applied index (an index that can be read: no stored
  version has its highest bit set) is 0, or greater than the number of records of the
  set, a MigrateDown of a positive amount panics on \<open>Sorted()[index[i]-1]\<close> (index out of
  range) instead of returning one of its error values; such a ledger is reached by
  MigrateUp itself, for instance from the set of one record of version 5.
\<close>

theorem MigrateDown_lookup_out_of_range:
  assumes "index = applied_index (committed c)" and "\<forall>v\<in>set index. 0 \<le> sint v"
    and "index \<noteq> []" and "length index < 2 ^ 63"
    and "0 < sint amount"
    and "last index = 0 \<and> length ms < 2 ^ 64 \<or> length ms < unat (last index)"
  shows "\<exists>c'. MigrateDown ms amount c = (Some IndexOutOfRange, c')
           \<and> committed c' = committed c \<and> pending c' = None \<and> trace c' = trace c"
proof -
  define n where "n = int (length index)"
  define a where "a = (if sint amount > n then n else sint amount)"
  have sc: "scan_rows (applied_index (committed c)) = Inr index"
    using assms(1,2) by (simp add: scan_rows_Inr)
  have n: "1 \<le> n" "n < 2 ^ 63" using assms(3,4) by (simp_all add: n_def Suc_leI)
  have a: "1 \<le> a" "a \<le> n" using assms(5) n by (auto simp: a_def)
  have b: "int_sub n a = n - a" using a n by (intro int_sub_exact) auto
  have l: "index ! nat (n - 1) = last index"
    using assms(3) by (simp add: n_def last_conv_nth nat_diff_distrib')
  have s: "down_step ms index (last index) (tx_opened c) = (Some IndexOutOfRange, tx_opened c)"
    by (rule down_step_out_of_range) (rule out_of_range_version [OF assms(6)])
  have "down_loop ms index (n - a) (n - 1) (tx_opened c) = (Some IndexOutOfRange, tx_opened c)"
    using a n l s by (subst down_loop.simps) (auto simp: n_def)
  then have "MigrateDown ms amount c = (Some IndexOutOfRange, Rollback c)"
    using b MigrateDown_run [OF sc assms(3) a_def [unfolded n_def], of ms]
    by (simp add: n_def Rollback_tx_opened)
  then show ?thesis by (simp add: Rollback_simps)
qed

theorem MigrateDown_lookup_out_of_range_witness:
  "fst (MigrateUp [table_migration 5 ''create users'' ''users''] (conn_of None [])) = None
   \<and> applied_index (committed (snd (MigrateUp [table_migration 5 ''create users'' ''users'']
        (conn_of None [])))) = [5]
   \<and> fst (MigrateDown [table_migration 5 ''create users'' ''users''] 1
        (snd (MigrateUp [table_migration 5 ''create users'' ''users''] (conn_of None []))))
      = Some IndexOutOfRange"
proof -
  let ?ms = "[table_migration 5 ''create users'' ''users'']"
  have up: "MigrateUp ?ms (conn_of None [])
     = (None,
        \<lparr>committed = \<lparr>ledger_table = Some [(5, ''create users'')], schema = [''users'']\<rparr>,
         pending = None, accepts = (\<lambda>v desc. True),
         trace = [UpCalled 5 ''create users'', InsertExecuted 5 ''create users'']\<rparr>)"
    by (simp add: MigrateUp_def BeginTx_def MigrationTable_def MigrationIndex_def exec_stmt_def
        create_table_def select_versions_def Sorted_def up_step_def InsertMigration_def
        insert_row_def operation_stmt_def log_event_def Rollback_def Commit_def
        table_migration_def conn_of_def create_if_not_exists_def)
  let ?c = "snd (MigrateUp ?ms (conn_of None []))"
  have ai: "applied_index (committed ?c) = [5]" by (simp add: up applied_index_def)
  have h1: "[5] = applied_index (committed ?c)" by (simp add: ai)
  have h0: "\<forall>v\<in>set [5::version]. 0 \<le> sint v" by simp
  have h2: "[5::version] \<noteq> []" by simp
  have h3: "length [5::version] < 2 ^ 63" by simp
  have h4: "0 < sint (1 :: 64 word)" by simp
  have h5: "last [5::version] = 0 \<and> length ?ms < 2 ^ 64 \<or> length ?ms < unat (last [5::version])"
    by simp
  from MigrateDown_lookup_out_of_range [OF h1 h0 h2 h3 h4 h5]
  have "fst (MigrateDown ?ms 1 ?c) = Some IndexOutOfRange" by auto
  then show ?thesis using ai by (simp add: up)
qed

subsection \<open>MigrateDown: the record reverted\<close>




text \<open>
  A gap in the versions of the set need not change the record: with the versions 1, 2, 4
  in the set and 1, 2 applied, the record reverted for the applied version 2 is the one
  of version 2.
\<close>

lemma MigrateDown_gap_in_set_example:
  "fst (MigrateDown [users_migration, posts_migration, table_migration 4 ''create tags'' ''tags''] 1
        (conn_of (Some [(1, ''create users''), (2, ''create posts'')]) [''posts'', ''users''])) = None
   \<and> new_events
        (conn_of (Some [(1, ''create users''), (2, ''create posts'')]) [''posts'', ''users''])
        (snd (MigrateDown [users_migration, posts_migration, table_migration 4 ''create tags'' ''tags''] 1
          (conn_of (Some [(1, ''create users''), (2, ''create posts'')]) [''posts'', ''users''])))
      = [DownCalled 2 ''create posts'', DeleteExecuted 2]"
  by (simp add: MigrateDown_def BeginTx_def MigrationTable_def MigrationIndex_def exec_stmt_def
        create_table_def select_versions_def Sorted_def down_step_def DeleteMigration_def
        delete_row_def operation_stmt_def log_event_def Rollback_def Commit_def int_sub_def
        users_migration_def posts_migration_def table_migration_def conn_of_def
        new_events_def drop_if_exists_def down_loop.simps word_le_nat_alt)

subsection \<open>MigrateDown: how many are reverted\<close>

lemma pending_tx_opened:
  "ledger_table (committed c) \<noteq> None \<Longrightarrow> pending (tx_opened c) = Some (committed c)"
  by (auto simp: tx_opened_def MigrationTable_def BeginTx_def exec_stmt_def create_table_def
      split: option.splits)

lemma down_step_reverted:
  assumes "pending c = Some w" and "well_placed ms v" and "v \<in> set index"
    and "Down (Sorted ms ! unat (v - 1)) = Some f" and "f w = Inr w1"
    and "delete_row v w1 = Inr w2"
  shows "\<exists>c'. down_step ms index v c = (None, c') \<and> pending c' = Some w2
           \<and> trace c' = trace c @ revert_events ms v"
proof -
  let ?m = "Sorted ms ! unat (v - 1)"
  from assms(2) have m: "unat (v - 1) < length ms" "Version ?m = v" "v \<noteq> 0"
    "Description ?m \<noteq> []" "Up ?m \<noteq> None"
    by (auto simp: well_placed_def Let_def)
  let ?c1 = "(log_event (DownCalled v (Description ?m)) c)\<lparr>pending := Some w1\<rparr>"
  have e1: "exec_stmt (operation_stmt f) (log_event (DownCalled v (Description ?m)) c) = (None, ?c1)"
    using assms(1,5) by (simp add: exec_stmt_def operation_stmt_def log_event_def)
  have e2: "DeleteMigration v ?c1 = (None, (log_event (DeleteExecuted v) ?c1)\<lparr>pending := Some w2\<rparr>)"
    using assms(6) by (simp add: DeleteMigration_def exec_stmt_def log_event_def)
  have "down_step ms index v c = (None, (log_event (DeleteExecuted v) ?c1)\<lparr>pending := Some w2\<rparr>)"
    using m assms(3,4) e1 e2 by (simp add: down_step_def Let_def)
  then show ?thesis by (simp add: log_event_def revert_events_def)
qed

lemma down_steps_reverted:
  assumes "pending c = Some w" and "\<forall>v\<in>set vs. well_placed ms v \<and> v \<in> set index"
    and "revert_versions ms vs w = Some d'"
  shows "\<exists>c'. down_steps ms index vs c = (None, c') \<and> pending c' = Some d'
           \<and> trace c' = trace c @ concat (map (revert_events ms) vs)"
  using assms
proof (induction vs arbitrary: c w)
  case Nil
  then show ?case by simp
next
  case (Cons v vs)
  from Cons.prems(3) obtain f w1 w2 where
    r: "Down (Sorted ms ! unat (v - 1)) = Some f" "f w = Inr w1" "delete_row v w1 = Inr w2"
       "revert_versions ms vs w2 = Some d'"
    by (auto split: option.splits sum.splits if_splits)
  from Cons.prems(2) have v: "well_placed ms v" "v \<in> set index"
    and vs: "\<forall>v\<in>set vs. well_placed ms v \<and> v \<in> set index"
    by simp_all
  from down_step_reverted [OF Cons.prems(1) v r(1,2,3)] obtain c1 where
    s: "down_step ms index v c = (None, c1)" "pending c1 = Some w2"
       "trace c1 = trace c @ revert_events ms v"
    by blast
  from Cons.IH [OF s(2) vs r(4)] obtain c' where
    t: "down_steps ms index vs c1 = (None, c')" "pending c' = Some d'"
       "trace c' = trace c1 @ concat (map (revert_events ms) vs)"
    by blast
  show ?case using s t by simp
qed

lemma revert_versions_ledger:
  assumes "revert_versions ms vs d = Some d'" and "ledger_table d = Some rows"
  shows "ledger_table d' = Some (filter (\<lambda>r. fst r \<notin> set vs) rows)"
  using assms
proof (induction vs arbitrary: d rows)
  case Nil
  then show ?case by simp
next
  case (Cons v vs)
  from Cons.prems(1) obtain f w1 w2 where
    r: "f d = Inr w1" "ledger_table w1 = ledger_table d" "delete_row v w1 = Inr w2"
       "revert_versions ms vs w2 = Some d'"
    by (auto split: option.splits sum.splits if_splits)
  have "ledger_table w2 = Some (filter (\<lambda>r. fst r \<noteq> v) rows)"
    using r(2,3) Cons.prems(2) by (auto simp: delete_row_def)
  from Cons.IH [OF r(4) this]
  have "ledger_table d' = Some (filter (\<lambda>r. fst r \<notin> set vs) (filter (\<lambda>r. fst r \<noteq> v) rows))" .
  moreover have "filter (\<lambda>r. fst r \<notin> set vs) (filter (\<lambda>r. fst r \<noteq> v) rows)
          = filter (\<lambda>r. fst r \<notin> set (v # vs)) rows"
    by (auto intro: filter_cong)
  ultimately show ?case by simp
qed

lemma sort_key_remove_suffix:
  fixes f :: "'a \<Rightarrow> 'b::linorder"
  assumes "distinct (sort_key f xs)"
  shows "sort_key f (filter (\<lambda>x. x \<notin> set (drop j (sort_key f xs))) xs) = take j (sort_key f xs)"
proof -
  let ?ys = "sort_key f xs"
  let ?P = "\<lambda>x. x \<notin> set (drop j ?ys)"
  have "sort_key f (filter ?P xs) = filter ?P ?ys" by (simp add: filter_sort)
  also have "\<dots> = filter ?P (take j ?ys) @ filter ?P (drop j ?ys)"
    by (metis append_take_drop_id filter_append)
  also have "filter ?P (drop j ?ys) = []" by simp
  also have "filter ?P (take j ?ys) = take j ?ys"
    using assms set_take_disj_set_drop_if_distinct [of ?ys j j] by (auto simp: filter_id_conv)
  finally show ?thesis by simp
qed

lemma committed_Commit: "pending c = Some w \<Longrightarrow> committed (Rollback (Commit c)) = w"
  by (simp add: Commit_def Rollback_def)

text \<open>
  C5, as amended. Let the applied index read have \<open>N \<ge> 1\<close> distinct versions, let
  \<open>0 \<le> amount\<close> and \<open>k = min amount N\<close>, let each of the last \<open>k\<close> applied versions \<open>v\<close> sit
  at its own position (position \<open>v - 1\<close> of \<open>Sorted()\<close> holds a record of version \<open>v\<close> with
  a description and both operations), and let the reverse operations of these records,
  run from the last applied version backward, each followed by the deletion of its ledger
  row, succeed without writing the ledger table themselves. Then MigrateDown succeeds; the
  database it commits is the result of exactly these \<open>k\<close> reverse operations and
  deletions; the calls and deletions are those of these \<open>k\<close> versions, from the last of
  the index backward; the index afterwards is the old one without its last \<open>k\<close> versions.
\<close>

theorem MigrateDown_reverts_most_recent:
  assumes "select_versions (committed c) = Inr index" and "index \<noteq> []" and "distinct index"
    and "length index < 2 ^ 63" and "0 \<le> sint amount"
    and "k = min (nat (sint amount)) (length index)"
    and "\<forall>v\<in>set (take k (rev index)). well_placed ms v"
    and "revert_versions ms (take k (rev index)) (committed c) = Some d'"
  shows "\<exists>c'. MigrateDown ms amount c = (None, c')
           \<and> committed c' = d'
           \<and> new_events c c' = concat (map (revert_events ms) (take k (rev index)))
           \<and> applied_index (committed c') = take (length index - k) index
           \<and> pending c' = None"
proof -
  note sv = select_versions_Inr [OF assms(1)]
  define n where "n = int (length index)"
  define a where "a = (if sint amount > n then n else sint amount)"
  have a: "0 \<le> a" "a \<le> n" "nat a = k" using assms(5,6) by (auto simp: a_def n_def)
  have "n < 2 ^ 63" using assms(4) by (simp add: n_def)
  then have b: "int_sub n a = n - a" using a by (intro int_sub_exact) auto
  define vs where "vs = rev (drop (nat (n - a)) index)"
  have j: "nat (n - a) = length index - k" using a by (simp add: n_def nat_diff_distrib')
  have "k \<le> length index" using assms(6) by simp
  then have vs: "vs = take k (rev index)"
    unfolding vs_def j by (simp add: rev_drop)
  obtain rows where rows: "ledger_table (committed c) = Some rows"
    using sv(1) by blast
  have p: "pending (tx_opened c) = Some (committed c)" using rows by (simp add: pending_tx_opened)
  have wp: "\<forall>v\<in>set vs. well_placed ms v \<and> v \<in> set index"
    using assms(7) unfolding vs by (auto dest: in_set_takeD)
  from down_steps_reverted [OF p wp assms(8) [folded vs]] obtain c3 where
    st: "down_steps ms index vs (tx_opened c) = (None, c3)" "pending c3 = Some d'"
        "trace c3 = trace (tx_opened c) @ concat (map (revert_events ms) vs)"
    by blast
  have lp: "down_loop ms index (int_sub n a) (n - 1) (tx_opened c) = (None, c3)"
    using assms(2) st(1) a unfolding b
    by (subst down_loop_steps) (auto simp: n_def vs_def)
  have md: "MigrateDown ms amount c = (None, Rollback (Commit c3))"
    using MigrateDown_run [OF sv(3) assms(2) a_def [unfolded n_def], of ms] lp
    by (simp add: n_def)
  have cm: "committed (Rollback (Commit c3)) = d'" by (rule committed_Commit [OF st(2)])
  have ev: "new_events c (Rollback (Commit c3)) = concat (map (revert_events ms) (take k (rev index)))"
    using st(3) by (simp add: new_events_def Rollback_simps tx_opened_simps vs)
  have ix: "index = sort_key sint (map fst rows)" using sv(2) rows by (simp add: applied_index_def)
  have sv': "set vs = set (drop (length index - k) index)"
    by (simp add: vs_def j)
  have "ledger_table d' = Some (filter (\<lambda>r. fst r \<notin> set vs) rows)"
    by (rule revert_versions_ledger [OF assms(8) [folded vs] rows])
  then have "applied_index d' = sort_key sint (map fst (filter (\<lambda>r. fst r \<notin> set vs) rows))"
    by (simp add: applied_index_def)
  also have "map fst (filter (\<lambda>r. fst r \<notin> set vs) rows)
               = filter (\<lambda>x. x \<notin> set vs) (map fst rows)"
    by (simp add: filter_map o_def)
  also have "sort_key sint (filter (\<lambda>x. x \<notin> set vs) (map fst rows)) = take (length index - k) index"
    using sort_key_remove_suffix [of sint "map fst rows" "length index - k"] assms(3)
    unfolding sv' ix by simp
  finally have ai: "applied_index d' = take (length index - k) index" .
  show ?thesis using md cm ev ai by (simp add: Rollback_simps)
qed

theorem MigrateDown_reverts_most_recent_witness:
  "select_versions (committed (conn_of (Some [(1, ''create users''), (2, ''create posts'')])
       [''posts'', ''users''])) = Inr [1, 2]
   \<and> revert_versions [strict_migration 2 ''create posts'' ''posts'',
                       strict_migration 1 ''create users'' ''users''] [2, 1]
        (committed (conn_of (Some [(1, ''create users''), (2, ''create posts'')])
          [''posts'', ''users'']))
       = Some \<lparr>ledger_table = Some [], schema = []\<rparr>
   \<and> fst (MigrateDown [strict_migration 2 ''create posts'' ''posts'',
                        strict_migration 1 ''create users'' ''users''] 5
        (conn_of (Some [(1, ''create users''), (2, ''create posts'')]) [''posts'', ''users''])) = None
   \<and> committed (snd (MigrateDown [strict_migration 2 ''create posts'' ''posts'',
                                   strict_migration 1 ''create users'' ''users''] 5
        (conn_of (Some [(1, ''create users''), (2, ''create posts'')]) [''posts'', ''users''])))
       = \<lparr>ledger_table = Some [], schema = []\<rparr>
   \<and> new_events
        (conn_of (Some [(1, ''create users''), (2, ''create posts'')]) [''posts'', ''users''])
        (snd (MigrateDown [strict_migration 2 ''create posts'' ''posts'',
                           strict_migration 1 ''create users'' ''users''] 5
          (conn_of (Some [(1, ''create users''), (2, ''create posts'')]) [''posts'', ''users''])))
      = [DownCalled 2 ''create posts'', DeleteExecuted 2,
         DownCalled 1 ''create users'', DeleteExecuted 1]"
proof -
  let ?c = "conn_of (Some [(1, ''create users''), (2, ''create posts'')]) [''posts'', ''users'']"
  let ?ms = "[strict_migration 2 ''create posts'' ''posts'',
              strict_migration 1 ''create users'' ''users'']"
  let ?d = "\<lparr>ledger_table = Some ([] :: (version \<times> string) list), schema = ([] :: string list)\<rparr>"
  have s: "Sorted ?ms = [strict_migration 1 ''create users'' ''users'',
                         strict_migration 2 ''create posts'' ''posts'']"
    by (simp add: Sorted_def strict_migration_def word_le_nat_alt)
  have h1: "select_versions (committed ?c) = Inr [1, 2]"
    by (simp add: select_versions_def conn_of_def)
  have h2: "[1, 2 :: version] \<noteq> []" by simp
  have h3: "distinct [1, 2 :: version]" by simp
  have h4: "length [1, 2 :: version] < 2 ^ 63" by simp
  have h5: "0 \<le> sint (5 :: 64 word)" by simp
  have h6: "2 = min (nat (sint (5 :: 64 word))) (length [1, 2 :: version])" by simp
  have h7: "\<forall>v\<in>set (take 2 (rev [1, 2 :: version])). well_placed ?ms v"
    unfolding well_placed_def s by (simp add: strict_migration_def)
  have rv: "revert_versions ?ms [2, 1] (committed ?c) = Some ?d"
    unfolding revert_versions.simps s
    by (simp add: strict_migration_def drop_table_op_def delete_row_def conn_of_def)
  have h8: "revert_versions ?ms (take 2 (rev [1, 2])) (committed ?c) = Some ?d"
    using rv by simp
  have e: "concat (map (revert_events ?ms) (take 2 (rev [1, 2])))
             = [DownCalled 2 ''create posts'', DeleteExecuted 2,
                DownCalled 1 ''create users'', DeleteExecuted 1]"
    unfolding revert_events_def s by (simp add: strict_migration_def)
  from MigrateDown_reverts_most_recent [OF h1 h2 h3 h4 h5 h6 h7 h8]
  have r: "fst (MigrateDown ?ms 5 ?c) = None"
     "committed (snd (MigrateDown ?ms 5 ?c)) = ?d"
     "new_events ?c (snd (MigrateDown ?ms 5 ?c))
          = concat (map (revert_events ?ms) (take 2 (rev [1, 2])))"
    by auto
  show ?thesis using h1 rv r(1,2) unfolding r(3) e by simp
qed

text \<open>
  Without that: after MigrateUp of the set of the single version 2, MigrateDown of
  amount 1 panics and reverts nothing.
\<close>

theorem MigrateDown_gap_counterexample:
  "applied_index (committed (conn_of (Some [(2, ''create users'')]) [''users''])) = [2]
   \<and> MigrateUp [table_migration 2 ''create users'' ''users''] (conn_of None [])
       = (None, (conn_of (Some [(2, ''create users'')]) [''users''])
                  \<lparr>trace := [UpCalled 2 ''create users'', InsertExecuted 2 ''create users'']\<rparr>)
   \<and> fst (MigrateDown [table_migration 2 ''create users'' ''users''] 1
        (conn_of (Some [(2, ''create users'')]) [''users''])) = Some IndexOutOfRange
   \<and> new_events (conn_of (Some [(2, ''create users'')]) [''users''])
        (snd (MigrateDown [table_migration 2 ''create users'' ''users''] 1
          (conn_of (Some [(2, ''create users'')]) [''users'']))) = []
   \<and> applied_index (committed (snd (MigrateDown [table_migration 2 ''create users'' ''users''] 1
          (conn_of (Some [(2, ''create users'')]) [''users''])))) = [2]"
  by (simp add: MigrateDown_def MigrateUp_def BeginTx_def MigrationTable_def MigrationIndex_def
        exec_stmt_def up_step_def InsertMigration_def insert_row_def create_if_not_exists_def
        create_table_def select_versions_def Sorted_def down_step_def DeleteMigration_def
        delete_row_def operation_stmt_def log_event_def Rollback_def Commit_def int_sub_def
        table_migration_def conn_of_def applied_index_def new_events_def
        drop_if_exists_def down_loop.simps)

subsection \<open>Sorted\<close>

lemma Sorted_store_eq:
  assumes "a < length h"
  shows "Sorted_store a h = Some (length h, h @ [Sorted (h ! a)])"
  using assms
  by (simp add: Sorted_store_def make_slice_def copy_slice_def sort_slice_def Sorted_def
      nth_append Let_def)

lemma Sorted_sorted: "sorted (map Version (Sorted ms))"
  by (simp add: Sorted_def)

lemma mset_Sorted: "mset (Sorted ms) = mset ms"
  by (simp add: Sorted_def)


lemma Sorted_idem: "Sorted (Sorted ms) = Sorted ms"
  by (simp add: Sorted_def sort_key_id_if_sorted)

lemma Sorted_strict:
  assumes "distinct (map Version ms)"
  shows "sorted_wrt (<) (map Version (Sorted ms))"
proof -
  have "mset (map Version (Sorted ms)) = mset (map Version ms)"
    by (simp add: mset_Sorted)
  then have "distinct (map Version (Sorted ms))"
    using assms mset_eq_imp_distinct_iff by blast
  then show ?thesis using Sorted_sorted [of ms] by (simp add: strict_sorted_iff)
qed

text \<open>
  C7. For a collection with distinct versions, \<open>Sorted()\<close> returns a new slice: its
  backing array is freshly allocated, every array that existed before (the source's
  among them) is left as it was, the result holds the records of the source with their
  versions strictly ascending, and sorting it again, or calling \<open>Sorted()\<close> on the
  source again, gives the same sequence.
\<close>

theorem Sorted_fresh_ascending_copy:
  assumes "a < length h" and "distinct (map Version (h ! a))"
  shows "\<exists>b h'. Sorted_store a h = Some (b, h')
           \<and> b = length h \<and> take (length h) h' = h
           \<and> h' ! b = Sorted (h ! a)
           \<and> mset (h' ! b) = mset (h ! a)
           \<and> sorted_wrt (<) (map Version (h' ! b))
           \<and> Sorted (h' ! b) = h' ! b
           \<and> (\<exists>b' h''. Sorted_store a h' = Some (b', h'') \<and> h'' ! b' = h' ! b)"
proof -
  let ?h' = "h @ [Sorted (h ! a)]"
  have 1: "Sorted_store a h = Some (length h, ?h')" by (rule Sorted_store_eq [OF assms(1)])
  have a': "a < length ?h'" using assms(1) by simp
  have 2: "Sorted_store a ?h' = Some (length ?h', ?h' @ [Sorted (?h' ! a)])"
    by (rule Sorted_store_eq [OF a'])
  have 3: "?h' ! a = h ! a" using assms(1) by (simp add: nth_append)
  have "(?h' @ [Sorted (?h' ! a)]) ! length ?h' = ?h' ! length h"
    unfolding 3 by (simp add: nth_append)
  then show ?thesis
    using 1 2 Sorted_strict [OF assms(2)] by (simp add: mset_Sorted Sorted_idem)
qed

theorem Sorted_fresh_ascending_copy_witness:
  "(0::nat) < length [[posts_migration, users_migration]]
   \<and> distinct (map Version ([[posts_migration, users_migration]] ! 0))
   \<and> Sorted_store 0 [[posts_migration, users_migration]]
       = Some (1, [[posts_migration, users_migration], [users_migration, posts_migration]])
   \<and> sorted_wrt (<) (map Version [users_migration, posts_migration])"
proof -
  have h1: "(0::nat) < length [[posts_migration, users_migration]]" by simp
  have h2: "distinct (map Version ([[posts_migration, users_migration]] ! 0))"
    by (simp add: users_migration_def posts_migration_def table_migration_def)
  have s: "Sorted [posts_migration, users_migration] = [users_migration, posts_migration]"
    by (simp add: Sorted_def users_migration_def posts_migration_def table_migration_def
        word_le_nat_alt)
  from Sorted_fresh_ascending_copy [OF h1 h2] obtain b h' where
    r: "Sorted_store 0 [[posts_migration, users_migration]] = Some (b, h')"
       "b = length [[posts_migration, users_migration]]"
       "take (length [[posts_migration, users_migration]]) h' = [[posts_migration, users_migration]]"
       "h' ! b = Sorted ([[posts_migration, users_migration]] ! 0)"
       "sorted_wrt (<) (map Version (h' ! b))"
    by blast
  have "sorted_wrt (<) (map Version [users_migration, posts_migration])"
    using r(4,5) by (simp add: s)
  moreover have "Sorted_store 0 [[posts_migration, users_migration]]
       = Some (1, [[posts_migration, users_migration], [users_migration, posts_migration]])"
    by (simp add: Sorted_store_eq s)
  ultimately show ?thesis using h1 h2 by blast
qed

subsection \<open>MigrateUp: invalid records\<close>








subsection \<open>MigrateUp: applied versions\<close>











text \<open>
  A version with its highest bit set cannot be read back: after the successful MigrateUp
  of the single version \<open>2^63\<close> on a new database, a second MigrateUp fails on the scan of
  the index.
\<close>

lemma MigrateUp_high_bit_second_run_example:
  "fst (MigrateUp [table_migration 0x8000000000000000 ''create users'' ''users''] (conn_of None []))
     = None
   \<and> fst (MigrateUp [table_migration 0x8000000000000000 ''create users'' ''users'']
        (snd (MigrateUp [table_migration 0x8000000000000000 ''create users'' ''users'']
          (conn_of None [])))) = Some ScanFailed"
  by (simp add: MigrateUp_def BeginTx_def MigrationTable_def MigrationIndex_def exec_stmt_def
        create_table_def select_versions_def Sorted_def up_step_def InsertMigration_def
        insert_row_def operation_stmt_def log_event_def Rollback_def Commit_def
        table_migration_def conn_of_def create_if_not_exists_def)

end
